theory Spec2Isabelle
  imports Complex_Main "HOL-Library.Multiset" "HOL-Library.Sublist"
begin

section \<open>Re-ranking for topic diversification: the re-ranking cell\<close>

text \<open>
  The program is the notebook \<^verbatim>\<open>re_ranking_topic_diversification.ipynb\<close>. Its re-ranking
  cell works on the data frame \<^verbatim>\<open>moviesToRerank\<close> (the candidate list, one row per movie,
  in descending order of \<^verbatim>\<open>score\<close>) and builds the data frame \<^verbatim>\<open>reRankedMovies\<close>
  (the slate) in two loops: a greedy set-cover loop and a fill loop by score.
\<close>

subsection \<open>Rows, frames and errors\<close>

text \<open>
  A row of \<^verbatim>\<open>topRated.join(movies.set_index('MovieID'))\<close>. The frame is indexed by
  \<^verbatim>\<open>MovieID\<close>; the columns the cell reads are \<^verbatim>\<open>Title\<close>, \<^verbatim>\<open>Genres\<close> (a list of
  strings since the cell before applied \<^verbatim>\<open>split('|')\<close>) and \<^verbatim>\<open>score\<close> (a float that is
  only ever compared, hence a real here). The columns \<^verbatim>\<open>AvgRating\<close> and \<^verbatim>\<open>UserCount\<close>
  are carried along and never read, so they are left out. The column \<^verbatim>\<open>nGenres\<close> that
  the loop writes before each sort is the function \<open>nGenres\<close> below. A data frame is the
  list of its rows in frame order.
\<close>

record movie =
  MovieID :: int
  Title :: string
  Genres :: "string list"
  score :: real

text \<open>
  The cell has no \<^verbatim>\<open>raise\<close> of its own. The two exceptions it can run into are those of
  pandas: \<^verbatim>\<open>iloc[0]\<close> on a frame without rows, and the attribute \<^verbatim>\<open>Title\<close> of
  \<^verbatim>\<open>pd.DataFrame()\<close>, a frame that has no column yet.
\<close>

datatype error = IndexError | AttributeError

subsection \<open>The genres of a frame\<close>

text \<open>
  \<^verbatim>\<open>
  def get_unique_items_in_column(dataset, colname):
      uniqueItems = set()
      for index, data in dataset.iterrows():
          if isinstance(data[colname], list):
              uniqueItems.update(data[colname])
          else:
              uniqueItems.add(data[colname])
      return uniqueItems
  \<close>
  It is called with \<^verbatim>\<open>colname = 'Genres'\<close> only, on rows whose \<^verbatim>\<open>Genres\<close> is a list, so
  the \<^verbatim>\<open>else\<close> branch is excluded by the type of the column.
\<close>

definition get_unique_items_in_column :: "movie list \<Rightarrow> string set" where
  "get_unique_items_in_column dataset =
     fold (\<lambda>data uniqueItems. uniqueItems \<union> set (Genres data)) dataset {}"

text \<open>
  \<^verbatim>\<open>lambda x: len(set(x).difference(uncoveredGenres))\<close>, applied to the \<^verbatim>\<open>Genres\<close> of a
  row. (The source's set \<^verbatim>\<open>uncoveredGenres\<close> holds the genres covered so far.)
\<close>

definition nGenres :: "string set \<Rightarrow> movie \<Rightarrow> nat" where
  "nGenres uncoveredGenres x = card (set (Genres x) - uncoveredGenres)"

subsection \<open>Sorting a frame\<close>

text \<open>
  \<^verbatim>\<open>sort_values(col, ascending=False)\<close> is pandas, not this repository, and the cell
  calls it with the default \<^verbatim>\<open>kind='quicksort'\<close>, which pandas documents as not stable.
  So the sort is a parameter of the model: a function from a numeric column and a frame to
  a frame. \<open>sort_contract\<close> is what pandas promises of it: the rows of the frame,
  rearranged into descending order of the column, and nothing about rows that tie. The
  theorems below are about every sort that meets the contract. \<open>sort_values_stable\<close> is
  an instance that keeps tied rows in their order. It is not the cell's sort in general,
  and it is used only to run the cell on inputs of a few rows: there numpy's quicksort is
  an insertion sort (up to 16 rows) and pandas reverses the column before and the result
  after, so that ties stay in frame order.
\<close>

type_synonym sorter = "(movie \<Rightarrow> real) \<Rightarrow> movie list \<Rightarrow> movie list"

definition sort_contract :: "sorter \<Rightarrow> bool" where
  "sort_contract sort_values \<longleftrightarrow>
     (\<forall>col frame. mset (sort_values col frame) = mset frame \<and>
                  sorted_wrt (\<lambda>a b. col b \<le> col a) (sort_values col frame))"

definition sort_values_stable :: sorter where
  "sort_values_stable col frame = sort_key (\<lambda>x. - col x) frame"

subsection \<open>The state of the cell\<close>

record state =
  moviesToRerank :: "movie list"
  uncoveredGenres :: "string set"
  movieIndex :: int
  reRankedMovies :: "movie list"

text \<open>
  \<^verbatim>\<open>
  uncoveredGenres = set()
  movieIndex = 0
  reRankedMovies = pd.DataFrame()
  \<close>
\<close>

definition init :: "movie list \<Rightarrow> state" where
  "init candidates =
     \<lparr>moviesToRerank = candidates, uncoveredGenres = {}, movieIndex = 0, reRankedMovies = []\<rparr>"

subsection \<open>The greedy coverage loop\<close>

text \<open>
  \<^verbatim>\<open>while genresInList.difference(uncoveredGenres) and movieIndex < recListSize:\<close>
\<close>

definition loop_cond :: "string set \<Rightarrow> int \<Rightarrow> state \<Rightarrow> bool" where
  "loop_cond genresInList recListSize s \<longleftrightarrow>
     genresInList - uncoveredGenres s \<noteq> {} \<and> movieIndex s < recListSize"

text \<open>
  \<^verbatim>\<open>
      moviesToRerank['nGenres'] = moviesToRerank['Genres'].apply(
          lambda x: len(set(x).difference(uncoveredGenres)))
      moviesToRerank = moviesToRerank.sort_values('nGenres', ascending=False)
      moviesToRerank = moviesToRerank.reset_index(drop=True)
      topMovie = moviesToRerank.iloc[0]
      reRankedMovies = reRankedMovies.append(topMovie)
      uncoveredGenres.update(topMovie['Genres'])
      movieIndex += 1
      moviesToRerank = moviesToRerank.drop([0])
  \<close>
  The frame that goes into the next round is the sorted one without its first row.
\<close>

definition loop_body :: "sorter \<Rightarrow> state \<Rightarrow> error + state" where
  "loop_body sort_values s =
     (case sort_values (\<lambda>x. real (nGenres (uncoveredGenres s) x)) (moviesToRerank s) of
        [] \<Rightarrow> Inl IndexError
      | topMovie # rest \<Rightarrow>
          Inr \<lparr>moviesToRerank = rest,
               uncoveredGenres = uncoveredGenres s \<union> set (Genres topMovie),
               movieIndex = movieIndex s + 1,
               reRankedMovies = reRankedMovies s @ [topMovie]\<rparr>)"

function greedy_loop :: "sorter \<Rightarrow> string set \<Rightarrow> int \<Rightarrow> state \<Rightarrow> error + state" where
  "greedy_loop sort_values genresInList recListSize s =
     (if loop_cond genresInList recListSize s
      then (case loop_body sort_values s of
              Inl e \<Rightarrow> Inl e
            | Inr s' \<Rightarrow> greedy_loop sort_values genresInList recListSize s')
      else Inr s)"
  by pat_completeness auto
termination
  by (relation "measure (\<lambda>(sort_values, genresInList, recListSize, s).
                   nat (recListSize - movieIndex s))")
     (auto simp: loop_cond_def loop_body_def split: list.splits)

text \<open>
  The states in which the body of the loop is entered, in order: the steps of the
  first phase.
\<close>

function greedy_steps :: "sorter \<Rightarrow> string set \<Rightarrow> int \<Rightarrow> state \<Rightarrow> state list" where
  "greedy_steps sort_values genresInList recListSize s =
     (if loop_cond genresInList recListSize s
      then s # (case loop_body sort_values s of
                  Inl e \<Rightarrow> []
                | Inr s' \<Rightarrow> greedy_steps sort_values genresInList recListSize s')
      else [])"
  by pat_completeness auto
termination
  by (relation "measure (\<lambda>(sort_values, genresInList, recListSize, s).
                   nat (recListSize - movieIndex s))")
     (auto simp: loop_cond_def loop_body_def split: list.splits)

subsection \<open>The fill loop\<close>

text \<open>
  \<^verbatim>\<open>
  for index, movie in moviesToRerank.iterrows():
      if movieIndex >= recListSize:
          break
      elif movieIndex < recListSize and movie.Title not in list(reRankedMovies.Title):
          reRankedMovies = reRankedMovies.append(movie)
          movieIndex += 1
  \<close>
  The first argument of \<open>fill_loop\<close> is the rows still to be visited. While nothing has
  been appended, \<^verbatim>\<open>reRankedMovies\<close> is \<^verbatim>\<open>pd.DataFrame()\<close> and has no attribute
  \<^verbatim>\<open>Title\<close>: evaluating the \<^verbatim>\<open>elif\<close> then raises.
\<close>

fun fill_loop :: "int \<Rightarrow> movie list \<Rightarrow> state \<Rightarrow> error + state" where
  "fill_loop recListSize [] s = Inr s"
| "fill_loop recListSize (movie # rows) s =
     (if movieIndex s \<ge> recListSize then Inr s
      else if reRankedMovies s = [] then Inl AttributeError
      else if Title movie \<notin> set (map Title (reRankedMovies s))
      then fill_loop recListSize rows
             (s\<lparr>reRankedMovies := reRankedMovies s @ [movie], movieIndex := movieIndex s + 1\<rparr>)
      else fill_loop recListSize rows s)"

subsection \<open>The whole cell\<close>

text \<open>
  \<open>phase1\<close> is the cell up to the end of the \<^verbatim>\<open>while\<close> loop; \<open>rerank\<close> is the whole
  cell, its result the frame \<^verbatim>\<open>reRankedMovies\<close> that the next cell displays. Between
  the loops:
  \<^verbatim>\<open>
  moviesToRerank = moviesToRerank.sort_values('score', ascending=False)
  moviesToRerank = moviesToRerank.reset_index(drop=True)
  \<close>
  \<^verbatim>\<open>recListSize\<close> is the constant 10 in the notebook and the slate size here.
\<close>

definition phase1 :: "sorter \<Rightarrow> movie list \<Rightarrow> int \<Rightarrow> error + state" where
  "phase1 sort_values candidates recListSize =
     greedy_loop sort_values (get_unique_items_in_column candidates) recListSize
       (init candidates)"

definition phase1_steps :: "sorter \<Rightarrow> movie list \<Rightarrow> int \<Rightarrow> state list" where
  "phase1_steps sort_values candidates recListSize =
     greedy_steps sort_values (get_unique_items_in_column candidates) recListSize
       (init candidates)"

definition phase2 :: "sorter \<Rightarrow> int \<Rightarrow> state \<Rightarrow> error + state" where
  "phase2 sort_values recListSize s =
     fill_loop recListSize (sort_values score (moviesToRerank s))
       (s\<lparr>moviesToRerank := sort_values score (moviesToRerank s)\<rparr>)"

definition rerank :: "sorter \<Rightarrow> movie list \<Rightarrow> int \<Rightarrow> error + movie list" where
  "rerank sort_values candidates recListSize =
     (case phase1 sort_values candidates recListSize of
        Inl e \<Rightarrow> Inl e
      | Inr s \<Rightarrow>
          (case phase2 sort_values recListSize s of
             Inl e \<Rightarrow> Inl e
           | Inr s' \<Rightarrow> Inr (reRankedMovies s')))"

subsection \<open>What the fill loop appends, said without the loop\<close>

text \<open>
  Not from the source: a description of the fill loop to compare it with. Of the rows of a
  frame, in frame order, \<open>unseen_titles seen\<close> keeps those whose title is neither in
  \<open>seen\<close> nor the title of a row kept before.
\<close>

fun unseen_titles :: "string set \<Rightarrow> movie list \<Rightarrow> movie list" where
  "unseen_titles seen [] = []"
| "unseen_titles seen (movie # rows) =
     (if Title movie \<in> seen then unseen_titles seen rows
      else movie # unseen_titles (insert (Title movie) seen) rows)"

subsection \<open>The invariant of the greedy loop\<close>

text \<open>
  What holds whenever the \<^verbatim>\<open>while\<close> condition is evaluated: the rows picked so far and the
  rows left are together the candidates, \<^verbatim>\<open>uncoveredGenres\<close> is the set of genres of the
  rows picked, and \<^verbatim>\<open>movieIndex\<close> counts them.
\<close>

definition phase1_inv :: "movie list \<Rightarrow> state \<Rightarrow> bool" where
  "phase1_inv candidates s \<longleftrightarrow>
     mset (reRankedMovies s @ moviesToRerank s) = mset candidates \<and>
     uncoveredGenres s = get_unique_items_in_column (reRankedMovies s) \<and>
     movieIndex s = int (length (reRankedMovies s))"

subsection \<open>Inputs used below\<close>

text \<open>The candidate list of scenario A of the specification.\<close>

definition movieA :: movie where
  "movieA = \<lparr>MovieID = 1, Title = ''A'', Genres = [''Action''], score = 100\<rparr>"

definition movieB :: movie where
  "movieB = \<lparr>MovieID = 2, Title = ''B'', Genres = [''Drama''], score = 90\<rparr>"

definition movieC :: movie where
  "movieC = \<lparr>MovieID = 3, Title = ''C'', Genres = [''Action'', ''Drama''], score = 80\<rparr>"

definition movieD :: movie where
  "movieD = \<lparr>MovieID = 4, Title = ''D'', Genres = [''Comedy''], score = 70\<rparr>"

definition scenarioA :: "movie list" where
  "scenarioA = [movieA, movieB, movieC, movieD]"

text \<open>
  Three candidates in descending order of score, of which the second and the third tie
  in the second round of the greedy loop.
\<close>

definition movieP :: movie where
  "movieP = \<lparr>MovieID = 10, Title = ''P'',
              Genres = [''Action'', ''Adventure'', ''Sci-Fi'', ''War''], score = 100\<rparr>"

definition movieQ :: movie where
  "movieQ = \<lparr>MovieID = 11, Title = ''Q'', Genres = [''Action'', ''Comedy''], score = 90\<rparr>"

definition movieR :: movie where
  "movieR = \<lparr>MovieID = 12, Title = ''R'',
              Genres = [''Adventure'', ''Sci-Fi'', ''Horror''], score = 80\<rparr>"

text \<open>Movies with different identifiers and one title, and a movie without a genre.\<close>

definition hamlet1 :: movie where
  "hamlet1 = \<lparr>MovieID = 20, Title = ''Hamlet'', Genres = [''Drama''], score = 10\<rparr>"

definition hamlet2 :: movie where
  "hamlet2 = \<lparr>MovieID = 21, Title = ''Hamlet'', Genres = [''Drama''], score = 5\<rparr>"

definition hamlet3 :: movie where
  "hamlet3 = \<lparr>MovieID = 22, Title = ''Hamlet'', Genres = [''Romance''], score = 5\<rparr>"

definition movieN :: movie where
  "movieN = \<lparr>MovieID = 30, Title = ''N'', Genres = [], score = 10\<rparr>"

section \<open>Lemmas\<close>

text \<open>
  The equations of the two loops rewrite a loop into itself, so they are taken out of the
  simplifier and used state by state.
\<close>

declare greedy_loop.simps [simp del]

declare greedy_steps.simps [simp del]

subsection \<open>Lists and multisets\<close>



lemma subseq_sorted_wrt:
  "subseq xs ys \<Longrightarrow> sorted_wrt R ys \<Longrightarrow> sorted_wrt R xs"
proof (induction rule: list_emb.induct)
  case (list_emb_Nil ys)
  show ?case by simp
next
  case (list_emb_Cons xs ys y)
  then show ?case by simp
next
  case (list_emb_Cons2 x y xs ys)
  then have "set xs \<subseteq> set ys"
    by (auto elim: list_emb_set)
  then show ?case
    using list_emb_Cons2 by auto
qed

lemma mset_two:
  assumes "mset xs = {#a, b#}"
  shows "xs = [a, b] \<or> xs = [b, a]"
proof -
  have "length xs = 2"
    using arg_cong [OF assms, of size] by simp
  then obtain x y where "xs = [x, y]"
    by (cases xs; cases "tl xs") auto
  then show ?thesis
    using assms by (auto simp: add_eq_conv_diff)
qed

subsection \<open>Genres of a frame, and the sort\<close>

lemma fold_genres:
  "fold (\<lambda>data uniqueItems. uniqueItems \<union> set (Genres data)) dataset A =
     A \<union> (\<Union>x\<in>set dataset. set (Genres x))"
  by (induction dataset arbitrary: A) auto

lemma get_unique_items_in_column_eq:
  "get_unique_items_in_column dataset = (\<Union>x\<in>set dataset. set (Genres x))"
  by (simp add: get_unique_items_in_column_def fold_genres)

lemma get_unique_items_in_column_mset:
  "mset xs = mset ys \<Longrightarrow> get_unique_items_in_column xs = get_unique_items_in_column ys"
  using mset_eq_setD [of xs ys] by (simp add: get_unique_items_in_column_eq)

lemma get_unique_items_in_column_append:
  "get_unique_items_in_column (xs @ ys) =
     get_unique_items_in_column xs \<union> get_unique_items_in_column ys"
  by (auto simp: get_unique_items_in_column_eq)

lemma get_unique_items_in_column_empty_iff:
  "get_unique_items_in_column xs = {} \<longleftrightarrow> (\<forall>x\<in>set xs. Genres x = [])"
  by (auto simp: get_unique_items_in_column_eq)

lemma sort_contract_mset:
  "sort_contract sort_values \<Longrightarrow> mset (sort_values col frame) = mset frame"
  by (simp add: sort_contract_def)

lemma sort_contract_set:
  "sort_contract sort_values \<Longrightarrow> set (sort_values col frame) = set frame"
  by (metis sort_contract_mset set_mset_mset)

lemma sort_contract_length:
  "sort_contract sort_values \<Longrightarrow> length (sort_values col frame) = length frame"
  by (metis sort_contract_mset size_mset)

lemma sort_contract_sorted:
  "sort_contract sort_values \<Longrightarrow> sorted_wrt (\<lambda>a b. col b \<le> col a) (sort_values col frame)"
  by (simp add: sort_contract_def)

lemma sort_contract_Nil:
  "sort_contract sort_values \<Longrightarrow> sort_values col [] = []"
  using sort_contract_mset [of sort_values col "[]"] by simp

lemma sort_contract_top:
  assumes "sort_contract sort_values" and "sort_values col frame = topMovie # rest"
  shows "topMovie \<in> set frame" and "\<forall>x\<in>set frame. col x \<le> col topMovie"
    and "mset frame = add_mset topMovie (mset rest)"
proof -
  have s: "set frame = insert topMovie (set rest)"
    using sort_contract_set [OF assms(1), of col frame] assms(2) by simp
  show "topMovie \<in> set frame" using s by simp
  have "sorted_wrt (\<lambda>a b. col b \<le> col a) (topMovie # rest)"
    using sort_contract_sorted [OF assms(1), of col frame] assms(2) by simp
  then show "\<forall>x\<in>set frame. col x \<le> col topMovie" using s by auto
  show "mset frame = add_mset topMovie (mset rest)"
    using sort_contract_mset [OF assms(1), of col frame] assms(2) by simp
qed

lemma sort_contract_stable: "sort_contract sort_values_stable"
proof -
  have "sorted_wrt (\<lambda>a b. col b \<le> col a) (sort_key (\<lambda>x. - col x) frame)"
    for col :: "movie \<Rightarrow> real" and frame
  proof -
    have "sorted (map (\<lambda>x. - col x) (sort_key (\<lambda>x. - col x) frame))"
      by (rule sorted_sort_key)
    then show ?thesis
      by (simp add: sorted_map)
  qed
  then show ?thesis
    by (simp add: sort_contract_def sort_values_stable_def)
qed

subsection \<open>The greedy coverage loop keeps its invariant\<close>

lemma phase1_inv_init: "phase1_inv candidates (init candidates)"
  by (simp add: phase1_inv_def init_def get_unique_items_in_column_def)

lemma phase1_inv_genres:
  assumes "phase1_inv candidates s"
  shows "get_unique_items_in_column candidates =
           uncoveredGenres s \<union> get_unique_items_in_column (moviesToRerank s)"
proof -
  have "get_unique_items_in_column candidates =
          get_unique_items_in_column (reRankedMovies s @ moviesToRerank s)"
    using assms by (intro get_unique_items_in_column_mset) (simp add: phase1_inv_def)
  then show ?thesis
    using assms by (simp add: get_unique_items_in_column_append phase1_inv_def)
qed

text \<open>
  When the loop is entered, a genre of the candidates is not covered, so a row is left that
  has it: \<^verbatim>\<open>iloc[0]\<close> finds a row, and the row it finds has the largest \<^verbatim>\<open>nGenres\<close>,
  which is at least 1.
\<close>

lemma loop_body_Inr:
  assumes "sort_contract sort_values"
    and "phase1_inv candidates s"
    and "loop_cond (get_unique_items_in_column candidates) recListSize s"
  shows "\<exists>topMovie rest.
           sort_values (\<lambda>x. real (nGenres (uncoveredGenres s) x)) (moviesToRerank s)
             = topMovie # rest \<and>
           loop_body sort_values s =
             Inr \<lparr>moviesToRerank = rest,
                  uncoveredGenres = uncoveredGenres s \<union> set (Genres topMovie),
                  movieIndex = movieIndex s + 1,
                  reRankedMovies = reRankedMovies s @ [topMovie]\<rparr> \<and>
           topMovie \<in> set (moviesToRerank s) \<and>
           (\<forall>x\<in>set (moviesToRerank s).
              nGenres (uncoveredGenres s) x \<le> nGenres (uncoveredGenres s) topMovie) \<and>
           1 \<le> nGenres (uncoveredGenres s) topMovie"
proof -
  let ?col = "\<lambda>x. real (nGenres (uncoveredGenres s) x)"
  obtain g where g: "g \<in> get_unique_items_in_column candidates" "g \<notin> uncoveredGenres s"
    using assms(3) by (auto simp: loop_cond_def)
  then have "g \<in> get_unique_items_in_column (moviesToRerank s)"
    using phase1_inv_genres [OF assms(2)] by simp
  then obtain y where y: "y \<in> set (moviesToRerank s)" "g \<in> set (Genres y)"
    by (auto simp: get_unique_items_in_column_eq)
  have "set (Genres y) - uncoveredGenres s \<noteq> {}"
    using g(2) y(2) by auto
  then have ypos: "1 \<le> nGenres (uncoveredGenres s) y"
    by (simp add: nGenres_def Suc_le_eq card_gt_0_iff)
  have "sort_values ?col (moviesToRerank s) \<noteq> []"
    using sort_contract_set [OF assms(1), of ?col "moviesToRerank s"] y(1) by auto
  then obtain topMovie rest where
    tr: "sort_values ?col (moviesToRerank s) = topMovie # rest"
    by (cases "sort_values ?col (moviesToRerank s)") auto
  note top = sort_contract_top [OF assms(1) tr]
  have le: "\<forall>x\<in>set (moviesToRerank s).
              nGenres (uncoveredGenres s) x \<le> nGenres (uncoveredGenres s) topMovie"
    using top(2) by simp
  then have "1 \<le> nGenres (uncoveredGenres s) topMovie"
    using ypos y(1) by (meson le_trans)
  then show ?thesis
    using tr top(1) le by (simp add: loop_body_def)
qed

lemma loop_body_inv:
  assumes "sort_contract sort_values"
    and "phase1_inv candidates s"
    and "loop_body sort_values s = Inr s'"
  shows "phase1_inv candidates s'"
proof -
  let ?col = "\<lambda>x. real (nGenres (uncoveredGenres s) x)"
  obtain topMovie rest where
    tr: "sort_values ?col (moviesToRerank s) = topMovie # rest"
    and s': "s' = \<lparr>moviesToRerank = rest,
                   uncoveredGenres = uncoveredGenres s \<union> set (Genres topMovie),
                   movieIndex = movieIndex s + 1,
                   reRankedMovies = reRankedMovies s @ [topMovie]\<rparr>"
    using assms(3) by (auto simp: loop_body_def split: list.splits)
  have m: "mset (moviesToRerank s) = add_mset topMovie (mset rest)"
    by (rule sort_contract_top(3) [OF assms(1) tr])
  have "mset (reRankedMovies s' @ moviesToRerank s') = mset candidates"
    using assms(2) m by (simp add: s' phase1_inv_def)
  moreover have "uncoveredGenres s' = get_unique_items_in_column (reRankedMovies s')"
    using assms(2)
    by (simp add: s' phase1_inv_def get_unique_items_in_column_append)
       (simp add: get_unique_items_in_column_eq)
  moreover have "movieIndex s' = int (length (reRankedMovies s'))"
    using assms(2) by (simp add: s' phase1_inv_def)
  ultimately show ?thesis
    by (simp add: phase1_inv_def)
qed

lemma loop_body_shape:
  assumes "loop_body sort_values s = Inr s'"
  shows "movieIndex s' = movieIndex s + 1"
    and "\<exists>topMovie. reRankedMovies s' = reRankedMovies s @ [topMovie]"
  using assms by (auto simp: loop_body_def split: list.splits)

lemma greedy_loop_inv:
  assumes "sort_contract sort_values"
    and "genresInList = get_unique_items_in_column candidates"
    and "phase1_inv candidates s"
  shows "\<exists>s'. greedy_loop sort_values genresInList recListSize s = Inr s' \<and>
              phase1_inv candidates s' \<and>
              \<not> loop_cond genresInList recListSize s' \<and>
              (movieIndex s \<le> recListSize \<longrightarrow> movieIndex s' \<le> recListSize)"
  using assms
proof (induction sort_values genresInList recListSize s rule: greedy_loop.induct)
  case (1 sort_values genresInList recListSize s)
  show ?case
  proof (cases "loop_cond genresInList recListSize s")
    case False
    then show ?thesis
      using "1.prems"(3)
      by (simp add: greedy_loop.simps [of sort_values genresInList recListSize s])
  next
    case True
    then obtain s1 where s1: "loop_body sort_values s = Inr s1"
      using loop_body_Inr [OF "1.prems"(1) "1.prems"(3), of recListSize] "1.prems"(2)
      by auto
    have inv1: "phase1_inv candidates s1"
      by (rule loop_body_inv [OF "1.prems"(1) "1.prems"(3) s1])
    obtain s' where s':
      "greedy_loop sort_values genresInList recListSize s1 = Inr s'"
      "phase1_inv candidates s'" "\<not> loop_cond genresInList recListSize s'"
      "movieIndex s1 \<le> recListSize \<longrightarrow> movieIndex s' \<le> recListSize"
      using "1.IH" [OF True s1 "1.prems"(1) "1.prems"(2) inv1] by blast
    have "movieIndex s1 \<le> recListSize"
      using True loop_body_shape(1) [OF s1] by (simp add: loop_cond_def)
    then show ?thesis
      using True s1 s'
      by (simp add: greedy_loop.simps [of sort_values genresInList recListSize s])
  qed
qed

lemma greedy_steps_inv:
  assumes "sort_contract sort_values"
    and "genresInList = get_unique_items_in_column candidates"
    and "phase1_inv candidates s"
    and "x \<in> set (greedy_steps sort_values genresInList recListSize s)"
  shows "phase1_inv candidates x \<and> loop_cond genresInList recListSize x"
  using assms
proof (induction sort_values genresInList recListSize s rule: greedy_steps.induct)
  case (1 sort_values genresInList recListSize s)
  show ?case
  proof (cases "loop_cond genresInList recListSize s")
    case False
    then show ?thesis
      using "1.prems"(4)
      by (simp add: greedy_steps.simps [of sort_values genresInList recListSize s])
  next
    case True
    show ?thesis
    proof (cases "x = s")
      case True
      then show ?thesis
        using \<open>loop_cond genresInList recListSize s\<close> "1.prems"(3) by simp
    next
      case False
      then have "x \<in> set (case loop_body sort_values s of
                            Inl e \<Rightarrow> []
                          | Inr s' \<Rightarrow> greedy_steps sort_values genresInList recListSize s')"
        using "1.prems"(4) \<open>loop_cond genresInList recListSize s\<close>
        by (simp add: greedy_steps.simps [of sort_values genresInList recListSize s])
      then obtain s1 where s1: "loop_body sort_values s = Inr s1"
        and x: "x \<in> set (greedy_steps sort_values genresInList recListSize s1)"
        by (cases "loop_body sort_values s") auto
      have inv1: "phase1_inv candidates s1"
        by (rule loop_body_inv [OF "1.prems"(1) "1.prems"(3) s1])
      show ?thesis
        by (rule "1.IH" [OF \<open>loop_cond genresInList recListSize s\<close> s1
              "1.prems"(1) "1.prems"(2) inv1 x])
    qed
  qed
qed

lemma phase1_Inr:
  assumes "sort_contract sort_values"
  shows "\<exists>s1. phase1 sort_values candidates recListSize = Inr s1 \<and>
              phase1_inv candidates s1 \<and>
              \<not> loop_cond (get_unique_items_in_column candidates) recListSize s1 \<and>
              (0 \<le> recListSize \<longrightarrow> movieIndex s1 \<le> recListSize)"
  using greedy_loop_inv [OF assms refl phase1_inv_init, of candidates recListSize]
  by (simp add: phase1_def init_def)

lemma phase1_step:
  assumes "sort_contract sort_values"
    and "s \<in> set (phase1_steps sort_values candidates recListSize)"
  shows "\<exists>s' topMovie.
           loop_body sort_values s = Inr s' \<and>
           reRankedMovies s' = reRankedMovies s @ [topMovie] \<and>
           uncoveredGenres s' = uncoveredGenres s \<union> set (Genres topMovie) \<and>
           topMovie \<in> set (moviesToRerank s) \<and>
           (\<forall>x\<in>set (moviesToRerank s).
              nGenres (uncoveredGenres s) x \<le> nGenres (uncoveredGenres s) topMovie) \<and>
           1 \<le> nGenres (uncoveredGenres s) topMovie"
proof -
  have "phase1_inv candidates s \<and>
        loop_cond (get_unique_items_in_column candidates) recListSize s"
    using assms(2) unfolding phase1_steps_def
    by (intro greedy_steps_inv [OF assms(1) refl phase1_inv_init])
  then obtain topMovie rest where
    "loop_body sort_values s =
       Inr \<lparr>moviesToRerank = rest,
            uncoveredGenres = uncoveredGenres s \<union> set (Genres topMovie),
            movieIndex = movieIndex s + 1,
            reRankedMovies = reRankedMovies s @ [topMovie]\<rparr>"
    "topMovie \<in> set (moviesToRerank s)"
    "\<forall>x\<in>set (moviesToRerank s).
       nGenres (uncoveredGenres s) x \<le> nGenres (uncoveredGenres s) topMovie"
    "1 \<le> nGenres (uncoveredGenres s) topMovie"
    using loop_body_Inr [OF assms(1), of candidates s recListSize] by blast
  then show ?thesis
    by (intro exI [of _ "\<lparr>moviesToRerank = rest,
            uncoveredGenres = uncoveredGenres s \<union> set (Genres topMovie),
            movieIndex = movieIndex s + 1,
            reRankedMovies = reRankedMovies s @ [topMovie]\<rparr>"] exI [of _ topMovie]) simp
qed

text \<open>
  The steps are the rounds of the loop: there are as many as rows picked, and round \<open>i\<close>
  (from 0) starts with the first \<open>i\<close> picks on the slate.
\<close>

lemma greedy_loop_steps:
  assumes "greedy_loop sort_values genresInList recListSize s = Inr s'"
  shows "take (length (reRankedMovies s)) (reRankedMovies s') = reRankedMovies s \<and>
         length (reRankedMovies s') =
           length (reRankedMovies s) +
           length (greedy_steps sort_values genresInList recListSize s) \<and>
         (\<forall>i < length (greedy_steps sort_values genresInList recListSize s).
            reRankedMovies (greedy_steps sort_values genresInList recListSize s ! i) =
              take (length (reRankedMovies s) + i) (reRankedMovies s'))"
  using assms
proof (induction sort_values genresInList recListSize s rule: greedy_loop.induct)
  case (1 sort_values genresInList recListSize s)
  show ?case
  proof (cases "loop_cond genresInList recListSize s")
    case False
    have e: "s' = s"
      using "1.prems" False
      by (simp add: greedy_loop.simps [of sort_values genresInList recListSize s])
    have st: "greedy_steps sort_values genresInList recListSize s = []"
      using False
      by (simp add: greedy_steps.simps [of sort_values genresInList recListSize s])
    show ?thesis
      unfolding e st by simp
  next
    case True
    then obtain s1 where s1: "loop_body sort_values s = Inr s1"
      and run: "greedy_loop sort_values genresInList recListSize s1 = Inr s'"
      using "1.prems"
      by (cases "loop_body sort_values s")
         (simp_all add: greedy_loop.simps [of sort_values genresInList recListSize s])
    obtain topMovie where top: "reRankedMovies s1 = reRankedMovies s @ [topMovie]"
      using loop_body_shape(2) [OF s1] by blast
    let ?steps1 = "greedy_steps sort_values genresInList recListSize s1"
    have steps: "greedy_steps sort_values genresInList recListSize s = s # ?steps1"
      using True s1
      by (simp add: greedy_steps.simps [of sort_values genresInList recListSize s])
    have IH1: "take (length (reRankedMovies s1)) (reRankedMovies s') = reRankedMovies s1"
      and IH2: "length (reRankedMovies s') = length (reRankedMovies s1) + length ?steps1"
      and IH3: "\<forall>i < length ?steps1.
                  reRankedMovies (?steps1 ! i) =
                    take (length (reRankedMovies s1) + i) (reRankedMovies s')"
      using "1.IH" [OF True s1 run] by auto
    have a: "take (length (reRankedMovies s)) (reRankedMovies s') = reRankedMovies s"
    proof -
      have "take (length (reRankedMovies s)) (take (length (reRankedMovies s1)) (reRankedMovies s'))
              = reRankedMovies s"
        by (simp only: IH1) (simp add: top)
      then show ?thesis
        by (simp add: top min_def)
    qed
    have b: "length (reRankedMovies s') = length (reRankedMovies s) + length (s # ?steps1)"
      using IH2 top by simp
    have c: "reRankedMovies ((s # ?steps1) ! i) =
               take (length (reRankedMovies s) + i) (reRankedMovies s')"
      if "i < length (s # ?steps1)" for i
    proof (cases i)
      case 0
      then show ?thesis using a by simp
    next
      case (Suc j)
      then have "j < length ?steps1" using that by simp
      then show ?thesis
        using IH3 Suc top by simp
    qed
    show ?thesis
      unfolding steps using a b c by blast
  qed
qed

lemma phase1_steps_picks:
  assumes "phase1 sort_values candidates recListSize = Inr s1"
  shows "length (phase1_steps sort_values candidates recListSize) =
           length (reRankedMovies s1)"
    and "i < length (phase1_steps sort_values candidates recListSize) \<Longrightarrow>
           reRankedMovies (phase1_steps sort_values candidates recListSize ! i) =
             take i (reRankedMovies s1)"
  using greedy_loop_steps [OF assms [unfolded phase1_def]]
  by (simp_all add: phase1_steps_def init_def)

subsection \<open>The fill loop and the whole cell\<close>

lemma fill_loop_Inr:
  "reRankedMovies s \<noteq> [] \<or> rows = [] \<or> recListSize \<le> movieIndex s \<Longrightarrow>
     \<exists>s'. fill_loop recListSize rows s = Inr s'"
  by (induction rows arbitrary: s) auto

lemma fill_loop_shape:
  assumes "fill_loop recListSize rows s = Inr s'"
  shows "\<exists>suffix. reRankedMovies s' = reRankedMovies s @ suffix \<and>
           subseq suffix rows \<and>
           movieIndex s' = movieIndex s + int (length suffix) \<and>
           (recListSize \<le> movieIndex s' \<or>
            (\<forall>x\<in>set rows. Title x \<in> Title ` set (reRankedMovies s'))) \<and>
           distinct (map Title suffix) \<and>
           (\<forall>x\<in>set suffix. Title x \<notin> Title ` set (reRankedMovies s)) \<and>
           (movieIndex s \<le> recListSize \<longrightarrow> movieIndex s' \<le> recListSize)"
  using assms
proof (induction rows arbitrary: s)
  case Nil
  then show ?case by simp
next
  case (Cons movie rows)
  consider (full) "recListSize \<le> movieIndex s"
    | (append) "movieIndex s < recListSize" "reRankedMovies s \<noteq> []"
        "Title movie \<notin> Title ` set (reRankedMovies s)"
    | (skip) "movieIndex s < recListSize" "reRankedMovies s \<noteq> []"
        "Title movie \<in> Title ` set (reRankedMovies s)"
    using Cons.prems by (cases "recListSize \<le> movieIndex s"; cases "reRankedMovies s = []") auto
  then show ?case
  proof cases
    case full
    then have "s' = s" using Cons.prems by simp
    then show ?thesis using full by simp
  next
    case append
    let ?s2 = "s\<lparr>reRankedMovies := reRankedMovies s @ [movie], movieIndex := movieIndex s + 1\<rparr>"
    have "fill_loop recListSize rows ?s2 = Inr s'"
      using Cons.prems append by simp
    from Cons.IH [OF this] obtain suffix where
      a: "reRankedMovies s' = (reRankedMovies s @ [movie]) @ suffix"
      and b: "subseq suffix rows"
      and c: "movieIndex s' = movieIndex s + 1 + int (length suffix)"
      and d: "recListSize \<le> movieIndex s' \<or>
              (\<forall>x\<in>set rows. Title x \<in> Title ` set (reRankedMovies s'))"
      and e: "distinct (map Title suffix)"
      and f: "\<forall>x\<in>set suffix. Title x \<notin> Title ` set (reRankedMovies s @ [movie])"
      and g: "movieIndex s + 1 \<le> recListSize \<longrightarrow> movieIndex s' \<le> recListSize"
      by auto
    have 1: "reRankedMovies s' = reRankedMovies s @ (movie # suffix)"
      using a by simp
    have 2: "subseq (movie # suffix) (movie # rows)"
      using b by simp
    have 3: "movieIndex s' = movieIndex s + int (length (movie # suffix))"
      using c by simp
    have 4: "recListSize \<le> movieIndex s' \<or>
             (\<forall>x\<in>set (movie # rows). Title x \<in> Title ` set (reRankedMovies s'))"
      using d a by auto
    have 5: "distinct (map Title (movie # suffix))"
      using e f by auto
    have 6: "\<forall>x\<in>set (movie # suffix). Title x \<notin> Title ` set (reRankedMovies s)"
      using f append(3) by auto
    have 7: "movieIndex s \<le> recListSize \<longrightarrow> movieIndex s' \<le> recListSize"
      using g append(1) by simp
    show ?thesis
      using 1 2 3 4 5 6 7 by blast
  next
    case skip
    have "fill_loop recListSize rows s = Inr s'"
      using Cons.prems skip by simp
    from Cons.IH [OF this] obtain suffix where
      a: "reRankedMovies s' = reRankedMovies s @ suffix"
      and b: "subseq suffix rows"
      and c: "movieIndex s' = movieIndex s + int (length suffix)"
      and d: "recListSize \<le> movieIndex s' \<or>
              (\<forall>x\<in>set rows. Title x \<in> Title ` set (reRankedMovies s'))"
      and e: "distinct (map Title suffix)"
      and f: "\<forall>x\<in>set suffix. Title x \<notin> Title ` set (reRankedMovies s)"
      and g: "movieIndex s \<le> recListSize \<longrightarrow> movieIndex s' \<le> recListSize"
      by auto
    have 2: "subseq suffix (movie # rows)"
      using b by (rule list_emb_Cons)
    have 4: "recListSize \<le> movieIndex s' \<or>
             (\<forall>x\<in>set (movie # rows). Title x \<in> Title ` set (reRankedMovies s'))"
      using d a skip(3) by auto
    show ?thesis
      using a 2 c 4 e f g by blast
  qed
qed

lemma fill_loop_distinct_titles:
  assumes "fill_loop recListSize rows s = Inr s'"
    and "distinct (map Title (reRankedMovies s @ rows))"
  shows "reRankedMovies s' = reRankedMovies s @ take (nat (recListSize - movieIndex s)) rows"
  using assms
proof (induction rows arbitrary: s)
  case Nil
  then show ?case by simp
next
  case (Cons movie rows)
  show ?case
  proof (cases "recListSize \<le> movieIndex s")
    case True
    then show ?thesis using Cons.prems(1) by simp
  next
    case False
    have ne: "reRankedMovies s \<noteq> []"
      using Cons.prems(1) False by (auto split: if_splits)
    have new: "Title movie \<notin> set (map Title (reRankedMovies s))"
      using Cons.prems(2) by auto
    let ?s2 = "s\<lparr>reRankedMovies := reRankedMovies s @ [movie], movieIndex := movieIndex s + 1\<rparr>"
    have run: "fill_loop recListSize rows ?s2 = Inr s'"
      using Cons.prems(1) False ne new by simp
    have "distinct (map Title (reRankedMovies ?s2 @ rows))"
      using Cons.prems(2) by simp
    from Cons.IH [OF run this]
    have "reRankedMovies s' =
            reRankedMovies s @ movie # take (nat (recListSize - (movieIndex s + 1))) rows"
      by simp
    moreover have "nat (recListSize - movieIndex s) =
                     Suc (nat (recListSize - (movieIndex s + 1)))"
      using False by simp
    ultimately show ?thesis
      by simp
  qed
qed

lemma unseen_titles_subseq: "subseq (unseen_titles seen rows) rows"
  by (induction rows arbitrary: seen) auto

lemma unseen_titles_id:
  "distinct (map Title rows) \<Longrightarrow> Title ` set rows \<inter> seen = {} \<Longrightarrow>
     unseen_titles seen rows = rows"
  by (induction rows arbitrary: seen) auto

lemma fill_loop_exact:
  assumes "fill_loop recListSize rows s = Inr s'"
  shows "reRankedMovies s' =
           reRankedMovies s @
           take (nat (recListSize - movieIndex s))
             (unseen_titles (Title ` set (reRankedMovies s)) rows)"
  using assms
proof (induction rows arbitrary: s)
  case Nil
  then show ?case by simp
next
  case (Cons movie rows)
  show ?case
  proof (cases "recListSize \<le> movieIndex s")
    case True
    then show ?thesis using Cons.prems by simp
  next
    case False
    have ne: "reRankedMovies s \<noteq> []"
      using Cons.prems False by (auto split: if_splits)
    show ?thesis
    proof (cases "Title movie \<in> Title ` set (reRankedMovies s)")
      case True
      then have "fill_loop recListSize rows s = Inr s'"
        using Cons.prems False ne by simp
      from Cons.IH [OF this] show ?thesis
        using True by simp
    next
      case new: False
      let ?s2 = "s\<lparr>reRankedMovies := reRankedMovies s @ [movie],
                     movieIndex := movieIndex s + 1\<rparr>"
      have "fill_loop recListSize rows ?s2 = Inr s'"
        using Cons.prems False ne new by simp
      from Cons.IH [OF this]
      have "reRankedMovies s' =
              reRankedMovies s @ movie #
              take (nat (recListSize - (movieIndex s + 1)))
                (unseen_titles (insert (Title movie) (Title ` set (reRankedMovies s))) rows)"
        by simp
      moreover have "nat (recListSize - movieIndex s) =
                       Suc (nat (recListSize - (movieIndex s + 1)))"
        using False by simp
      ultimately show ?thesis
        using new by simp
    qed
  qed
qed

lemma phase1_empty_slate:
  assumes "phase1_inv candidates s1"
    and "\<not> loop_cond (get_unique_items_in_column candidates) recListSize s1"
    and "reRankedMovies s1 = []"
  shows "recListSize \<le> 0 \<or> (\<forall>x\<in>set candidates. Genres x = [])"
proof -
  have "uncoveredGenres s1 = {}" "movieIndex s1 = 0"
    using assms(1,3) by (simp_all add: phase1_inv_def get_unique_items_in_column_def)
  then have "get_unique_items_in_column candidates = {} \<or> recListSize \<le> 0"
    using assms(2) by (auto simp: loop_cond_def)
  then show ?thesis
    by (auto simp: get_unique_items_in_column_empty_iff)
qed

lemma phase2_Inr:
  assumes "sort_contract sort_values"
    and "phase1_inv candidates s1"
    and "\<not> loop_cond (get_unique_items_in_column candidates) recListSize s1"
    and "recListSize \<le> 0 \<or> candidates = [] \<or> (\<exists>x\<in>set candidates. Genres x \<noteq> [])"
  shows "\<exists>s2. phase2 sort_values recListSize s1 = Inr s2"
proof -
  have "reRankedMovies s1 \<noteq> [] \<or> sort_values score (moviesToRerank s1) = [] \<or>
        recListSize \<le> movieIndex s1"
  proof (cases "reRankedMovies s1 = []")
    case False
    then show ?thesis by simp
  next
    case True
    then have "recListSize \<le> 0 \<or> (\<forall>x\<in>set candidates. Genres x = [])"
      using phase1_empty_slate [OF assms(2,3)] by simp
    moreover have "movieIndex s1 = 0"
      using assms(2) True by (simp add: phase1_inv_def)
    moreover have "candidates = [] \<Longrightarrow> sort_values score (moviesToRerank s1) = []"
      using assms(2) True sort_contract_Nil [OF assms(1)] by (simp add: phase1_inv_def)
    ultimately show ?thesis
      using assms(4) by auto
  qed
  then show ?thesis
    unfolding phase2_def by (intro fill_loop_Inr) simp
qed

lemma rerank_phases:
  assumes "phase1 sort_values candidates recListSize = Inr s1"
    and "phase2 sort_values recListSize s1 = Inr s2"
  shows "rerank sort_values candidates recListSize = Inr (reRankedMovies s2)"
  using assms by (simp add: rerank_def)

lemma rerank_InrD:
  assumes "rerank sort_values candidates recListSize = Inr slate"
  shows "\<exists>s1 s2. phase1 sort_values candidates recListSize = Inr s1 \<and>
           phase2 sort_values recListSize s1 = Inr s2 \<and> slate = reRankedMovies s2"
  using assms by (auto simp: rerank_def split: sum.splits)

lemma rerank_Inr_summary:
  assumes "sort_contract sort_values"
    and "rerank sort_values candidates recListSize = Inr slate"
  shows "\<exists>s1 suffix.
           phase1 sort_values candidates recListSize = Inr s1 \<and>
           phase1_inv candidates s1 \<and>
           \<not> loop_cond (get_unique_items_in_column candidates) recListSize s1 \<and>
           slate = reRankedMovies s1 @ suffix \<and>
           subseq suffix (sort_values score (moviesToRerank s1)) \<and>
           (recListSize \<le> int (length slate) \<or>
            (\<forall>x\<in>set (moviesToRerank s1). Title x \<in> Title ` set slate)) \<and>
           distinct (map Title suffix) \<and>
           (\<forall>x\<in>set suffix. Title x \<notin> Title ` set (reRankedMovies s1)) \<and>
           (0 \<le> recListSize \<longrightarrow> int (length slate) \<le> recListSize)"
proof -
  obtain s1 s2 where p1: "phase1 sort_values candidates recListSize = Inr s1"
    and p2: "phase2 sort_values recListSize s1 = Inr s2"
    and slate: "slate = reRankedMovies s2"
    using rerank_InrD [OF assms(2)] by blast
  have inv: "phase1_inv candidates s1"
    and stop: "\<not> loop_cond (get_unique_items_in_column candidates) recListSize s1"
    and le: "0 \<le> recListSize \<longrightarrow> movieIndex s1 \<le> recListSize"
    using phase1_Inr [OF assms(1), of candidates recListSize] p1 by auto
  let ?rows = "sort_values score (moviesToRerank s1)"
  have idx: "movieIndex s1 = int (length (reRankedMovies s1))"
    using inv by (simp add: phase1_inv_def)
  obtain suffix where
    a: "reRankedMovies s2 = reRankedMovies s1 @ suffix"
    and b: "subseq suffix ?rows"
    and c: "movieIndex s2 = movieIndex s1 + int (length suffix)"
    and d: "recListSize \<le> movieIndex s2 \<or>
            (\<forall>x\<in>set ?rows. Title x \<in> Title ` set (reRankedMovies s2))"
    and e: "distinct (map Title suffix)"
    and f: "\<forall>x\<in>set suffix. Title x \<notin> Title ` set (reRankedMovies s1)"
    and g: "movieIndex s1 \<le> recListSize \<longrightarrow> movieIndex s2 \<le> recListSize"
    using fill_loop_shape [OF p2 [unfolded phase2_def]] by auto
  have len: "movieIndex s2 = int (length slate)"
    using a c idx slate by simp
  have d': "recListSize \<le> int (length slate) \<or>
            (\<forall>x\<in>set (moviesToRerank s1). Title x \<in> Title ` set slate)"
    using d len slate sort_contract_set [OF assms(1), of score "moviesToRerank s1"] by simp
  have g': "0 \<le> recListSize \<longrightarrow> int (length slate) \<le> recListSize"
    using g le len by simp
  have "slate = reRankedMovies s1 @ suffix"
    using a slate by simp
  then show ?thesis
    using p1 inv stop b d' e f g' by (intro exI [of _ s1] exI [of _ suffix]) simp
qed

lemma rerank_returns:
  assumes "sort_contract sort_values"
    and "recListSize \<le> 0 \<or> candidates = [] \<or> (\<exists>x\<in>set candidates. Genres x \<noteq> [])"
  shows "\<exists>slate. rerank sort_values candidates recListSize = Inr slate"
proof -
  obtain s1 where p1: "phase1 sort_values candidates recListSize = Inr s1"
    and inv: "phase1_inv candidates s1"
    and stop: "\<not> loop_cond (get_unique_items_in_column candidates) recListSize s1"
    using phase1_Inr [OF assms(1), of candidates recListSize] by blast
  obtain s2 where "phase2 sort_values recListSize s1 = Inr s2"
    using phase2_Inr [OF assms(1) inv stop assms(2)] by blast
  then show ?thesis
    using rerank_phases [OF p1] by blast
qed

lemma rerank_total_summary:
  assumes "sort_contract sort_values"
    and "phase1 sort_values candidates recListSize = Inr s1"
    and "recListSize \<le> 0 \<or> candidates = [] \<or> (\<exists>x\<in>set candidates. Genres x \<noteq> [])"
  shows "\<exists>suffix.
           rerank sort_values candidates recListSize = Inr (reRankedMovies s1 @ suffix) \<and>
           subseq suffix (sort_values score (moviesToRerank s1)) \<and>
           (recListSize \<le> int (length (reRankedMovies s1 @ suffix)) \<or>
            (\<forall>x\<in>set (moviesToRerank s1).
               Title x \<in> Title ` set (reRankedMovies s1 @ suffix))) \<and>
           distinct (map Title suffix) \<and>
           (\<forall>x\<in>set suffix. Title x \<notin> Title ` set (reRankedMovies s1))"
proof -
  obtain slate where slate: "rerank sort_values candidates recListSize = Inr slate"
    using rerank_returns [OF assms(1,3)] by blast
  obtain suffix where "slate = reRankedMovies s1 @ suffix"
    and "subseq suffix (sort_values score (moviesToRerank s1))"
    and "recListSize \<le> int (length slate) \<or>
         (\<forall>x\<in>set (moviesToRerank s1). Title x \<in> Title ` set slate)"
    and "distinct (map Title suffix)"
    and "\<forall>x\<in>set suffix. Title x \<notin> Title ` set (reRankedMovies s1)"
    using rerank_Inr_summary [OF assms(1) slate] assms(2) by auto
  then show ?thesis
    using slate by (intro exI [of _ suffix]) simp
qed

lemma rerank_nonpositive:
  assumes "recListSize \<le> 0"
  shows "rerank sort_values candidates recListSize = Inr []"
proof -
  have p1: "phase1 sort_values candidates recListSize = Inr (init candidates)"
    using assms
    by (simp add: phase1_def loop_cond_def init_def
          greedy_loop.simps [of sort_values _ recListSize])
  have "fill_loop recListSize rows (init candidates\<lparr>moviesToRerank := rows\<rparr>) =
          Inr (init candidates\<lparr>moviesToRerank := rows\<rparr>)" for rows
    using assms by (cases rows) (simp_all add: init_def)
  then have "phase2 sort_values recListSize (init candidates) =
               Inr (init candidates\<lparr>moviesToRerank :=
                      sort_values score (moviesToRerank (init candidates))\<rparr>)"
    by (simp add: phase2_def)
  then show ?thesis
    using p1 by (simp add: rerank_def init_def)
qed

lemma rerank_Nil:
  assumes "sort_contract sort_values"
  shows "rerank sort_values [] recListSize = Inr []"
proof -
  have p1: "phase1 sort_values [] recListSize = Inr (init [])"
    by (simp add: phase1_def loop_cond_def get_unique_items_in_column_def
          greedy_loop.simps [of sort_values _ recListSize])
  have "sort_values score (moviesToRerank (init [])) = []"
    using sort_contract_Nil [OF assms] by (simp add: init_def)
  then have "phase2 sort_values recListSize (init []) = Inr (init [])"
    by (simp add: phase2_def init_def)
  then show ?thesis
    using p1 by (simp add: rerank_def init_def)
qed

lemma rerank_length:
  assumes "sort_contract sort_values"
    and "distinct (map Title candidates)"
    and "0 < recListSize"
    and "rerank sort_values candidates recListSize = Inr slate"
  shows "int (length slate) = min recListSize (int (length candidates))"
proof -
  obtain s1 s2 where p1: "phase1 sort_values candidates recListSize = Inr s1"
    and p2: "phase2 sort_values recListSize s1 = Inr s2"
    and slate: "slate = reRankedMovies s2"
    using rerank_InrD [OF assms(4)] by blast
  have inv: "phase1_inv candidates s1"
    and le: "movieIndex s1 \<le> recListSize"
    using phase1_Inr [OF assms(1), of candidates recListSize] p1 assms(3) by auto
  let ?rows = "sort_values score (moviesToRerank s1)"
  have m: "mset (reRankedMovies s1 @ ?rows) = mset candidates"
    using inv sort_contract_mset [OF assms(1), of score "moviesToRerank s1"]
    by (simp add: phase1_inv_def)
  have "mset (map Title (reRankedMovies s1 @ ?rows)) = mset (map Title candidates)"
    by (simp only: mset_map m)
  then have "distinct (map Title (reRankedMovies s1 @ ?rows)) = distinct (map Title candidates)"
    by (rule mset_eq_imp_distinct_iff)
  then have "distinct (map Title (reRankedMovies s1 @ ?rows))"
    using assms(2) by simp
  then have "slate = reRankedMovies s1 @ take (nat (recListSize - movieIndex s1)) ?rows"
    using fill_loop_distinct_titles [OF p2 [unfolded phase2_def]] slate by simp
  then have len: "length slate =
      length (reRankedMovies s1) + min (length ?rows) (nat (recListSize - movieIndex s1))"
    by simp
  have idx: "movieIndex s1 = int (length (reRankedMovies s1))"
    using inv by (simp add: phase1_inv_def)
  have total: "length (reRankedMovies s1) + length ?rows = length candidates"
    using arg_cong [OF m, of size] by simp
  show ?thesis
    using len idx total le by linarith
qed

subsection \<open>Runs on the inputs\<close>

lemmas cell_defs =
  rerank_def phase1_def phase2_def init_def get_unique_items_in_column_def
  loop_cond_def loop_body_def nGenres_def sort_values_stable_def greedy_loop.simps

lemmas movie_defs =
  scenarioA_def movieA_def movieB_def movieC_def movieD_def movieP_def movieQ_def
  movieR_def hamlet1_def hamlet2_def hamlet3_def movieN_def


lemma run_steps_scenarioA:
  "phase1_steps sort_values_stable scenarioA 3 =
     [init scenarioA,
      \<lparr>moviesToRerank = [movieA, movieB, movieD], uncoveredGenres = {''Action'', ''Drama''},
       movieIndex = 1, reRankedMovies = [movieC]\<rparr>]"
  by (simp add: phase1_steps_def greedy_steps.simps cell_defs movie_defs)

lemma run_phase1_scenarioA:
  "phase1 sort_values_stable scenarioA 3 =
     Inr \<lparr>moviesToRerank = [movieA, movieB],
          uncoveredGenres = {''Action'', ''Drama''} \<union> {''Comedy''},
          movieIndex = 2, reRankedMovies = [movieC, movieD]\<rparr>"
  by (simp add: cell_defs movie_defs)

lemma run_scenarioA_0: "rerank sort_values_stable scenarioA 0 = Inr []"
  by (simp add: cell_defs movie_defs)

lemma run_duplicate_rows: "rerank sort_values_stable [movieA, movieA] 1 = Inr [movieA]"
  by (simp add: cell_defs movie_defs)

lemma run_steps_PQR:
  "phase1_steps sort_values_stable [movieP, movieQ, movieR] 2 =
     [init [movieP, movieQ, movieR],
      \<lparr>moviesToRerank = [movieR, movieQ],
       uncoveredGenres = {''Action'', ''Adventure'', ''Sci-Fi'', ''War''},
       movieIndex = 1, reRankedMovies = [movieP]\<rparr>]"
  by (simp add: phase1_steps_def greedy_steps.simps cell_defs movie_defs)

lemma run_tie_PQR:
  "nGenres {''Action'', ''Adventure'', ''Sci-Fi'', ''War''} movieQ = 1 \<and>
   nGenres {''Action'', ''Adventure'', ''Sci-Fi'', ''War''} movieR = 1 \<and>
   score movieR < score movieQ"
  by (simp add: nGenres_def movie_defs)

lemma run_PQR:
  "rerank sort_values_stable [movieP, movieQ, movieR] 2 = Inr [movieP, movieR]"
  by (simp add: cell_defs movie_defs)

lemma run_hamlet12: "rerank sort_values_stable [hamlet1, hamlet2] 2 = Inr [hamlet1]"
  by (simp add: cell_defs movie_defs)

lemma run_phase1_hamlet12:
  "phase1 sort_values_stable [hamlet1, hamlet2] 2 =
     Inr \<lparr>moviesToRerank = [hamlet2], uncoveredGenres = {''Drama''},
          movieIndex = 1, reRankedMovies = [hamlet1]\<rparr>"
  by (simp add: cell_defs movie_defs)

lemma run_phase1_C_hamlet12:
  "phase1 sort_values_stable [movieC, hamlet1, hamlet2] 3 =
     Inr \<lparr>moviesToRerank = [hamlet1, hamlet2], uncoveredGenres = {''Action'', ''Drama''},
          movieIndex = 1, reRankedMovies = [movieC]\<rparr>"
  by (simp add: cell_defs movie_defs)

lemma run_C_hamlet12:
  "rerank sort_values_stable [movieC, hamlet1, hamlet2] 3 = Inr [movieC, hamlet1]"
  by (simp add: cell_defs movie_defs)

lemma run_hamlet13:
  "rerank sort_values_stable [hamlet1, hamlet3] 2 = Inr [hamlet1, hamlet3]"
  by (simp add: cell_defs movie_defs)

text \<open>
  A candidate without a genre, alone: the greedy loop is not entered, and the fill loop
  asks the frame \<^verbatim>\<open>pd.DataFrame()\<close> for its column \<^verbatim>\<open>Title\<close>.
\<close>

lemma run_movieN: "rerank sort_values_stable [movieN] 1 = Inl AttributeError"
  by (simp add: cell_defs movie_defs)

section \<open>The claims\<close>

text \<open>
  C1, as the cell has it. The fill loop tells rows apart by \<^verbatim>\<open>Title\<close>, so the length is
  what the claim says for titles that are pairwise different, not for identifiers that
  are. For every candidate list with pairwise different titles in which some candidate has
  a genre (as in every list of the data model that is not empty) or which is empty, and
  every positive slate size, the cell returns a slate of length
  \<open>min slateSize (number of candidates)\<close>, whatever order the sort gives to ties.
\<close>

theorem slate_length:
  assumes "sort_contract sort_values"
    and "distinct (map Title candidates)"
    and "0 < recListSize"
    and "candidates = [] \<or> (\<exists>x\<in>set candidates. Genres x \<noteq> [])"
  shows "\<exists>slate. rerank sort_values candidates recListSize = Inr slate \<and>
           int (length slate) = min recListSize (int (length candidates))"
proof -
  obtain slate where slate: "rerank sort_values candidates recListSize = Inr slate"
    using rerank_returns [OF assms(1), of recListSize candidates] assms(4) by auto
  then show ?thesis
    using rerank_length [OF assms(1,2,3) slate] by simp
qed

theorem slate_length_witness:
  "sort_contract sort_values_stable \<and> distinct (map Title scenarioA) \<and> (0::int) < 3 \<and>
   (scenarioA = [] \<or> (\<exists>x\<in>set scenarioA. Genres x \<noteq> [])) \<and>
   (\<exists>slate. rerank sort_values_stable scenarioA 3 = Inr slate \<and>
      int (length slate) = min 3 (int (length scenarioA)))"
proof -
  have h1: "sort_contract sort_values_stable" by (rule sort_contract_stable)
  have h2: "distinct (map Title scenarioA)" by (simp add: movie_defs)
  have h3: "(0::int) < 3" by simp
  have h4: "scenarioA = [] \<or> (\<exists>x\<in>set scenarioA. Genres x \<noteq> [])"
    by (simp add: movie_defs)
  show ?thesis
    using slate_length [OF h1 h2 h3 h4] h1 h2 h3 h4 by blast
qed

text \<open>
  Two candidates with different identifiers and one title, slate size 2: the slate has one
  row, not two.
\<close>

theorem slate_length_counterexample:
  "distinct (map MovieID [hamlet1, hamlet2]) \<and> (0::int) < 2 \<and>
   rerank sort_values_stable [hamlet1, hamlet2] 2 = Inr [hamlet1] \<and>
   int (length [hamlet1]) \<noteq> min 2 (int (length [hamlet1, hamlet2]))"
  using run_hamlet12 by (simp add: hamlet1_def hamlet2_def)

text \<open>
  C2. On the candidates A (100, Action), B (90, Drama), C (80, Action and Drama),
  D (70, Comedy) with slate size 3, the cell returns the slate C, D, A in that order,
  whatever order the sort gives to ties.
\<close>

theorem scenarioA_slate:
  assumes "sort_contract sort_values"
  shows "rerank sort_values scenarioA 3 = Inr [movieC, movieD, movieA]"
proof -
  let ?g = "get_unique_items_in_column scenarioA"
  let ?col0 = "\<lambda>x. real (nGenres {} x)"
  let ?col1 = "\<lambda>x. real (nGenres {''Action'', ''Drama''} x)"
  have g: "?g = {''Action'', ''Drama'', ''Comedy''}"
    by (auto simp: get_unique_items_in_column_def movie_defs)
  have n0: "nGenres {} movieA = 1" "nGenres {} movieB = 1"
    "nGenres {} movieC = 2" "nGenres {} movieD = 1"
    by (simp_all add: nGenres_def movie_defs)
  have n1: "nGenres {''Action'', ''Drama''} movieA = 0"
    "nGenres {''Action'', ''Drama''} movieB = 0"
    "nGenres {''Action'', ''Drama''} movieD = 1"
    by (simp_all add: nGenres_def movie_defs)

  \<comment> \<open>first round: C has two new genres, the others one\<close>
  have "length (sort_values ?col0 scenarioA) = 4"
    using sort_contract_length [OF assms, of ?col0 scenarioA] by (simp add: scenarioA_def)
  then obtain top0 rest0 where sort0: "sort_values ?col0 scenarioA = top0 # rest0"
    by (cases "sort_values ?col0 scenarioA") auto
  note t0 = sort_contract_top [OF assms sort0]
  have top0: "top0 = movieC"
    using t0(1) t0(2) n0 by (auto simp: scenarioA_def)
  have "mset scenarioA = add_mset movieC {#movieA, movieB, movieD#}"
    by (simp add: scenarioA_def)
  then have rest0: "mset rest0 = {#movieA, movieB, movieD#}"
    using t0(3) top0 by simp
  define s1 where "s1 = \<lparr>moviesToRerank = rest0, uncoveredGenres = {''Action'', ''Drama''},
                          movieIndex = 1, reRankedMovies = [movieC]\<rparr>"
  have c0: "loop_cond ?g 3 (init scenarioA)"
    by (simp add: loop_cond_def g init_def)
  have b0: "loop_body sort_values (init scenarioA) = Inr s1"
    using sort0 by (simp add: loop_body_def init_def s1_def top0) (simp add: movieC_def)

  \<comment> \<open>second round: only D has a new genre\<close>
  have set0: "set rest0 = {movieA, movieB, movieD}"
    using arg_cong [OF rest0, of set_mset] by simp
  have "length (sort_values ?col1 rest0) = 3"
    using sort_contract_length [OF assms, of ?col1 rest0] arg_cong [OF rest0, of size]
    by simp
  then obtain top1 rest1 where sort1: "sort_values ?col1 rest0 = top1 # rest1"
    by (cases "sort_values ?col1 rest0") auto
  note t1 = sort_contract_top [OF assms sort1]
  have top1: "top1 = movieD"
    using t1(1) t1(2) n1 by (auto simp: set0)
  have "mset rest0 = add_mset movieD {#movieA, movieB#}"
    by (simp add: rest0)
  then have rest1: "mset rest1 = {#movieA, movieB#}"
    using t1(3) top1 by simp
  define s2 where "s2 = \<lparr>moviesToRerank = rest1,
                          uncoveredGenres = {''Action'', ''Drama''} \<union> set (Genres movieD),
                          movieIndex = 2, reRankedMovies = [movieC, movieD]\<rparr>"
  have c1: "loop_cond ?g 3 s1"
    by (simp add: loop_cond_def g s1_def)
  have b1: "loop_body sort_values s1 = Inr s2"
    using sort1 by (simp add: loop_body_def s1_def s2_def top1)
  have c2: "\<not> loop_cond ?g 3 s2"
    by (auto simp: loop_cond_def g s2_def movieD_def)
  have p1: "phase1 sort_values scenarioA 3 = Inr s2"
    using c0 b0 c1 b1 c2
    by (simp add: phase1_def greedy_loop.simps [of sort_values ?g 3])

  \<comment> \<open>the fill loop: A before B by score, and one free place\<close>
  have "mset (sort_values score rest1) = {#movieA, movieB#}"
    using sort_contract_mset [OF assms, of score rest1] rest1 by simp
  then have "sort_values score rest1 = [movieA, movieB] \<or>
             sort_values score rest1 = [movieB, movieA]"
    by (rule mset_two)
  moreover have "sorted_wrt (\<lambda>a b. score b \<le> score a) (sort_values score rest1)"
    by (rule sort_contract_sorted [OF assms])
  ultimately have rows: "sort_values score rest1 = [movieA, movieB]"
    by (auto simp: movieA_def movieB_def)
  have "phase2 sort_values 3 s2 =
          Inr (s2\<lparr>moviesToRerank := [movieA, movieB],
                  reRankedMovies := [movieC, movieD, movieA], movieIndex := 3\<rparr>)"
    by (simp add: phase2_def s2_def rows) (simp add: movie_defs)
  then show ?thesis
    using p1 by (simp add: rerank_def)
qed

theorem scenarioA_slate_witness:
  "sort_contract sort_values_stable \<and>
   rerank sort_values_stable scenarioA 3 = Inr [movieC, movieD, movieA]"
  using scenarioA_slate [OF sort_contract_stable] sort_contract_stable by simp

text \<open>
  C3, as the cell has it. The cell has no rule for ties. At every step of the greedy loop
  the row picked is the one that the sort by \<^verbatim>\<open>nGenres\<close> returns first, and this is one of
  the rows left that tie on the largest \<^verbatim>\<open>nGenres\<close>; a row with more new genres than
  every other row left is the only one certain to be picked. Which of several tied rows
  comes first is the sort's doing, on a frame that the step before has left in its own
  order, and it need not be the first in the score order of the candidates.
\<close>

theorem greedy_tie_pick:
  assumes "sort_contract sort_values"
    and "s \<in> set (phase1_steps sort_values candidates recListSize)"
  shows "\<exists>topMovie rest.
           sort_values (\<lambda>x. real (nGenres (uncoveredGenres s) x)) (moviesToRerank s)
             = topMovie # rest \<and>
           loop_body sort_values s =
             Inr \<lparr>moviesToRerank = rest,
                  uncoveredGenres = uncoveredGenres s \<union> set (Genres topMovie),
                  movieIndex = movieIndex s + 1,
                  reRankedMovies = reRankedMovies s @ [topMovie]\<rparr> \<and>
           topMovie \<in> set (filter (\<lambda>x. \<forall>z\<in>set (moviesToRerank s).
                                        nGenres (uncoveredGenres s) z
                                          \<le> nGenres (uncoveredGenres s) x)
                              (moviesToRerank s)) \<and>
           (\<forall>t\<in>set (moviesToRerank s).
              (\<forall>z\<in>set (moviesToRerank s).
                 z \<noteq> t \<longrightarrow> nGenres (uncoveredGenres s) z < nGenres (uncoveredGenres s) t)
              \<longrightarrow> topMovie = t)"
proof -
  have "phase1_inv candidates s \<and>
        loop_cond (get_unique_items_in_column candidates) recListSize s"
    using assms(2) unfolding phase1_steps_def
    by (intro greedy_steps_inv [OF assms(1) refl phase1_inv_init])
  then obtain topMovie rest where
    srt: "sort_values (\<lambda>x. real (nGenres (uncoveredGenres s) x)) (moviesToRerank s)
            = topMovie # rest"
    and body: "loop_body sort_values s =
       Inr \<lparr>moviesToRerank = rest,
            uncoveredGenres = uncoveredGenres s \<union> set (Genres topMovie),
            movieIndex = movieIndex s + 1,
            reRankedMovies = reRankedMovies s @ [topMovie]\<rparr>"
    and mem: "topMovie \<in> set (moviesToRerank s)"
    and mx: "\<forall>x\<in>set (moviesToRerank s).
       nGenres (uncoveredGenres s) x \<le> nGenres (uncoveredGenres s) topMovie"
    using loop_body_Inr [OF assms(1), of candidates s recListSize] by blast
  have tied: "topMovie \<in> set (filter (\<lambda>x. \<forall>z\<in>set (moviesToRerank s).
                                        nGenres (uncoveredGenres s) z
                                          \<le> nGenres (uncoveredGenres s) x)
                              (moviesToRerank s))"
    using mem mx by simp
  have only: "topMovie = t"
    if "t \<in> set (moviesToRerank s)"
      and "\<forall>z\<in>set (moviesToRerank s).
             z \<noteq> t \<longrightarrow> nGenres (uncoveredGenres s) z < nGenres (uncoveredGenres s) t"
    for t
  proof (rule ccontr)
    assume "topMovie \<noteq> t"
    then have "nGenres (uncoveredGenres s) topMovie < nGenres (uncoveredGenres s) t"
      using that(2) mem by blast
    moreover have "nGenres (uncoveredGenres s) t \<le> nGenres (uncoveredGenres s) topMovie"
      using mx that(1) by blast
    ultimately show False by simp
  qed
  show ?thesis
    using srt body tied only by blast
qed

text \<open>
  On P, Q, R: at the first step P alone has the most new genres and is picked; at the
  second step R and Q tie, and the pick is one of the two.
\<close>

theorem greedy_tie_pick_witness:
  "sort_contract sort_values_stable \<and>
   init [movieP, movieQ, movieR]
     \<in> set (phase1_steps sort_values_stable [movieP, movieQ, movieR] 2) \<and>
   nGenres {} movieQ < nGenres {} movieP \<and> nGenres {} movieR < nGenres {} movieP \<and>
   (\<exists>rest. sort_values_stable (\<lambda>x. real (nGenres {} x)) [movieP, movieQ, movieR]
             = movieP # rest) \<and>
   \<lparr>moviesToRerank = [movieR, movieQ],
    uncoveredGenres = {''Action'', ''Adventure'', ''Sci-Fi'', ''War''},
    movieIndex = 1, reRankedMovies = [movieP]\<rparr>
     \<in> set (phase1_steps sort_values_stable [movieP, movieQ, movieR] 2) \<and>
   (\<exists>topMovie rest.
      sort_values_stable
        (\<lambda>x. real (nGenres {''Action'', ''Adventure'', ''Sci-Fi'', ''War''} x))
        [movieR, movieQ] = topMovie # rest \<and>
      loop_body sort_values_stable
        \<lparr>moviesToRerank = [movieR, movieQ],
         uncoveredGenres = {''Action'', ''Adventure'', ''Sci-Fi'', ''War''},
         movieIndex = 1, reRankedMovies = [movieP]\<rparr> =
        Inr \<lparr>moviesToRerank = rest,
             uncoveredGenres =
               {''Action'', ''Adventure'', ''Sci-Fi'', ''War''} \<union> set (Genres topMovie),
             movieIndex = 1 + 1,
             reRankedMovies = [movieP] @ [topMovie]\<rparr> \<and>
      topMovie \<in> set (filter (\<lambda>x. \<forall>z\<in>set [movieR, movieQ].
                    nGenres {''Action'', ''Adventure'', ''Sci-Fi'', ''War''} z
                      \<le> nGenres {''Action'', ''Adventure'', ''Sci-Fi'', ''War''} x)
                  [movieR, movieQ]) \<and>
      (\<forall>t\<in>set [movieR, movieQ].
         (\<forall>z\<in>set [movieR, movieQ].
            z \<noteq> t \<longrightarrow> nGenres {''Action'', ''Adventure'', ''Sci-Fi'', ''War''} z
                      < nGenres {''Action'', ''Adventure'', ''Sci-Fi'', ''War''} t)
         \<longrightarrow> topMovie = t))"
proof -
  have h1: "sort_contract sort_values_stable" by (rule sort_contract_stable)
  have h2: "init [movieP, movieQ, movieR]
            \<in> set (phase1_steps sort_values_stable [movieP, movieQ, movieR] 2)"
    by (simp add: run_steps_PQR)
  have h3: "\<lparr>moviesToRerank = [movieR, movieQ],
             uncoveredGenres = {''Action'', ''Adventure'', ''Sci-Fi'', ''War''},
             movieIndex = 1, reRankedMovies = [movieP]\<rparr>
            \<in> set (phase1_steps sort_values_stable [movieP, movieQ, movieR] 2)"
    by (simp add: run_steps_PQR)
  have q: "nGenres {} movieQ < nGenres {} movieP"
    and r: "nGenres {} movieR < nGenres {} movieP"
    by (simp_all add: nGenres_def movie_defs)
  then have only: "\<forall>z\<in>set [movieP, movieQ, movieR].
                     z \<noteq> movieP \<longrightarrow> nGenres {} z < nGenres {} movieP"
    by simp
  obtain topMovie rest where
    a: "sort_values_stable (\<lambda>x. real (nGenres {} x)) [movieP, movieQ, movieR]
          = topMovie # rest"
    and b: "\<forall>t\<in>set [movieP, movieQ, movieR].
              (\<forall>z\<in>set [movieP, movieQ, movieR].
                 z \<noteq> t \<longrightarrow> nGenres {} z < nGenres {} t) \<longrightarrow> topMovie = t"
    using greedy_tie_pick [OF h1 h2] by (auto simp: init_def)
  have "topMovie = movieP"
    using b only by simp
  then have c1: "\<exists>rest. sort_values_stable (\<lambda>x. real (nGenres {} x))
                          [movieP, movieQ, movieR] = movieP # rest"
    using a by blast
  have c2: "(\<exists>topMovie rest.
      sort_values_stable
        (\<lambda>x. real (nGenres {''Action'', ''Adventure'', ''Sci-Fi'', ''War''} x))
        [movieR, movieQ] = topMovie # rest \<and>
      loop_body sort_values_stable
        \<lparr>moviesToRerank = [movieR, movieQ],
         uncoveredGenres = {''Action'', ''Adventure'', ''Sci-Fi'', ''War''},
         movieIndex = 1, reRankedMovies = [movieP]\<rparr> =
        Inr \<lparr>moviesToRerank = rest,
             uncoveredGenres =
               {''Action'', ''Adventure'', ''Sci-Fi'', ''War''} \<union> set (Genres topMovie),
             movieIndex = 1 + 1,
             reRankedMovies = [movieP] @ [topMovie]\<rparr> \<and>
      topMovie \<in> set (filter (\<lambda>x. \<forall>z\<in>set [movieR, movieQ].
                    nGenres {''Action'', ''Adventure'', ''Sci-Fi'', ''War''} z
                      \<le> nGenres {''Action'', ''Adventure'', ''Sci-Fi'', ''War''} x)
                  [movieR, movieQ]) \<and>
      (\<forall>t\<in>set [movieR, movieQ].
         (\<forall>z\<in>set [movieR, movieQ].
            z \<noteq> t \<longrightarrow> nGenres {''Action'', ''Adventure'', ''Sci-Fi'', ''War''} z
                      < nGenres {''Action'', ''Adventure'', ''Sci-Fi'', ''War''} t)
         \<longrightarrow> topMovie = t))"
    using greedy_tie_pick [OF h1 h3] by simp
  show ?thesis
    by (intro conjI h1 h2 h3 q r c1 c2)
qed

text \<open>
  Candidates P, Q, R in descending order of score. The first step picks P and leaves the
  frame as R, Q (3 genres of R were new, 2 of Q). At the second step Q and R tie with one
  new genre each, and the row picked is R, although Q comes first in the score order.
\<close>

theorem greedy_tie_pick_counterexample:
  "phase1_steps sort_values_stable [movieP, movieQ, movieR] 2 =
     [init [movieP, movieQ, movieR],
      \<lparr>moviesToRerank = [movieR, movieQ],
       uncoveredGenres = {''Action'', ''Adventure'', ''Sci-Fi'', ''War''},
       movieIndex = 1, reRankedMovies = [movieP]\<rparr>] \<and>
   nGenres {''Action'', ''Adventure'', ''Sci-Fi'', ''War''} movieQ = 1 \<and>
   nGenres {''Action'', ''Adventure'', ''Sci-Fi'', ''War''} movieR = 1 \<and>
   score movieR < score movieQ \<and>
   rerank sort_values_stable [movieP, movieQ, movieR] 2 = Inr [movieP, movieR]"
  using run_steps_PQR run_tie_PQR run_PQR by simp

text \<open>
  C4, as the cell has it. The cell checks neither the slate size nor the identifiers and
  raises no InvalidArgument. When the slate size is not positive, or the candidates have
  duplicate identifiers, it returns a slate all the same (provided, for a positive slate
  size, that some candidate has a genre), and the slate is empty when the slate size is
  not positive.
\<close>

theorem invalid_arguments_not_rejected:
  assumes "sort_contract sort_values"
    and "recListSize \<le> 0 \<or> \<not> distinct (map MovieID candidates)"
    and "recListSize \<le> 0 \<or> (\<exists>x\<in>set candidates. Genres x \<noteq> [])"
  shows "\<exists>slate. rerank sort_values candidates recListSize = Inr slate \<and>
           (recListSize \<le> 0 \<longrightarrow> slate = [])"
proof (cases "recListSize \<le> 0")
  case True
  then show ?thesis
    by (simp add: rerank_nonpositive)
next
  case False
  then have "\<exists>slate. rerank sort_values candidates recListSize = Inr slate"
    using assms(3) by (intro rerank_returns [OF assms(1)]) simp
  then show ?thesis
    using False by simp
qed

theorem invalid_arguments_not_rejected_witness:
  "sort_contract sort_values_stable \<and>
   ((1::int) \<le> 0 \<or> \<not> distinct (map MovieID [movieA, movieA])) \<and>
   ((1::int) \<le> 0 \<or> (\<exists>x\<in>set [movieA, movieA]. Genres x \<noteq> [])) \<and>
   (\<exists>slate. rerank sort_values_stable [movieA, movieA] 1 = Inr slate \<and>
      ((1::int) \<le> 0 \<longrightarrow> slate = []))"
proof -
  have h1: "sort_contract sort_values_stable" by (rule sort_contract_stable)
  have h2: "(1::int) \<le> 0 \<or> \<not> distinct (map MovieID [movieA, movieA])" by simp
  have h3: "(1::int) \<le> 0 \<or> (\<exists>x\<in>set [movieA, movieA]. Genres x \<noteq> [])"
    by (simp add: movieA_def)
  show ?thesis
    using invalid_arguments_not_rejected [OF h1 h2 h3] h1 h2 h3 by blast
qed

text \<open>
  Slate size 0 on the candidates of scenario A, and a candidate list that has the same row
  (so the same identifier) twice: both runs return a slate.
\<close>

theorem invalid_arguments_counterexample:
  "rerank sort_values_stable scenarioA 0 = Inr [] \<and>
   \<not> distinct (map MovieID [movieA, movieA]) \<and>
   rerank sort_values_stable [movieA, movieA] 1 = Inr [movieA]"
  using run_scenarioA_0 run_duplicate_rows by simp

text \<open>
  C5. At each step of the greedy loop, the row appended to the slate is one of the rows
  still in \<^verbatim>\<open>moviesToRerank\<close>, and its \<^verbatim>\<open>nGenres\<close> (the number of its genres not yet
  covered) is greater than or equal to that of every row still there, whatever order the
  sort gives to ties.
\<close>

theorem greedy_pick_is_maximal:
  assumes "sort_contract sort_values"
    and "s \<in> set (phase1_steps sort_values candidates recListSize)"
  shows "\<exists>s' topMovie.
           loop_body sort_values s = Inr s' \<and>
           reRankedMovies s' = reRankedMovies s @ [topMovie] \<and>
           topMovie \<in> set (moviesToRerank s) \<and>
           (\<forall>x\<in>set (moviesToRerank s).
              nGenres (uncoveredGenres s) x \<le> nGenres (uncoveredGenres s) topMovie)"
  using phase1_step [OF assms] by blast

theorem greedy_pick_is_maximal_witness:
  "sort_contract sort_values_stable \<and>
   init scenarioA \<in> set (phase1_steps sort_values_stable scenarioA 3) \<and>
   (\<exists>s' topMovie.
      loop_body sort_values_stable (init scenarioA) = Inr s' \<and>
      reRankedMovies s' = reRankedMovies (init scenarioA) @ [topMovie] \<and>
      topMovie \<in> set (moviesToRerank (init scenarioA)) \<and>
      (\<forall>x\<in>set (moviesToRerank (init scenarioA)).
         nGenres (uncoveredGenres (init scenarioA)) x
           \<le> nGenres (uncoveredGenres (init scenarioA)) topMovie))"
proof -
  have h1: "sort_contract sort_values_stable" by (rule sort_contract_stable)
  have h2: "init scenarioA \<in> set (phase1_steps sort_values_stable scenarioA 3)"
    by (simp add: run_steps_scenarioA)
  show ?thesis
    using greedy_pick_is_maximal [OF h1 h2] h1 h2 by blast
qed

text \<open>
  C6, as the cell has it. After the greedy loop has stopped (in state \<open>s1\<close>), the fill loop
  goes through the rows left in \<^verbatim>\<open>moviesToRerank\<close> in the order of the sort by
  \<^verbatim>\<open>score\<close>, so in non-increasing order of score, and appends a row when its title is not
  yet on the slate, not every row, until the slate has \<^verbatim>\<open>recListSize\<close> rows or the rows are
  exhausted: the slate is the picks of the greedy loop followed by the first
  \<open>recListSize - number of picks\<close> rows of unseen title. When the titles of the candidates
  are pairwise different, these are the best-scored rows left. This is for candidates of
  which one at least has a genre (or none at all, or a slate size that is not positive).
\<close>

theorem fill_takes_best_unseen:
  assumes "sort_contract sort_values"
    and "phase1 sort_values candidates recListSize = Inr s1"
    and "recListSize \<le> 0 \<or> candidates = [] \<or> (\<exists>x\<in>set candidates. Genres x \<noteq> [])"
  shows "rerank sort_values candidates recListSize =
           Inr (reRankedMovies s1 @
                take (nat (recListSize - int (length (reRankedMovies s1))))
                  (unseen_titles (Title ` set (reRankedMovies s1))
                     (sort_values score (moviesToRerank s1)))) \<and>
         sorted_wrt (\<lambda>a b. score b \<le> score a)
           (unseen_titles (Title ` set (reRankedMovies s1))
              (sort_values score (moviesToRerank s1))) \<and>
         (distinct (map Title candidates) \<longrightarrow>
            unseen_titles (Title ` set (reRankedMovies s1))
              (sort_values score (moviesToRerank s1))
            = sort_values score (moviesToRerank s1))"
proof -
  let ?rows = "sort_values score (moviesToRerank s1)"
  let ?seen = "Title ` set (reRankedMovies s1)"
  obtain slate where slate: "rerank sort_values candidates recListSize = Inr slate"
    using rerank_returns [OF assms(1,3)] by blast
  then obtain s2 where p2: "phase2 sort_values recListSize s1 = Inr s2"
    and s2: "slate = reRankedMovies s2"
    using rerank_InrD [OF slate] assms(2) by auto
  have inv: "phase1_inv candidates s1"
    using phase1_Inr [OF assms(1), of candidates recListSize] assms(2) by auto
  then have idx: "movieIndex s1 = int (length (reRankedMovies s1))"
    by (simp add: phase1_inv_def)
  have run: "slate = reRankedMovies s1 @
               take (nat (recListSize - int (length (reRankedMovies s1))))
                 (unseen_titles ?seen ?rows)"
    using fill_loop_exact [OF p2 [unfolded phase2_def]] s2 idx by simp
  have srt: "sorted_wrt (\<lambda>a b. score b \<le> score a) (unseen_titles ?seen ?rows)"
    using unseen_titles_subseq sort_contract_sorted [OF assms(1)]
    by (rule subseq_sorted_wrt)
  have all: "unseen_titles ?seen ?rows = ?rows" if d: "distinct (map Title candidates)"
  proof -
    have m: "mset (reRankedMovies s1 @ ?rows) = mset candidates"
      using inv sort_contract_mset [OF assms(1), of score "moviesToRerank s1"]
      by (simp add: phase1_inv_def)
    have "mset (map Title (reRankedMovies s1 @ ?rows)) = mset (map Title candidates)"
      by (simp only: mset_map m)
    then have "distinct (map Title (reRankedMovies s1 @ ?rows)) =
               distinct (map Title candidates)"
      by (rule mset_eq_imp_distinct_iff)
    then have "distinct (map Title (reRankedMovies s1 @ ?rows))"
      using d by simp
    then have "distinct (map Title ?rows)" and "Title ` set ?rows \<inter> ?seen = {}"
      by auto
    then show ?thesis
      by (rule unseen_titles_id)
  qed
  show ?thesis
    using slate run srt all by simp
qed

theorem fill_takes_best_unseen_witness:
  "sort_contract sort_values_stable \<and>
   phase1 sort_values_stable scenarioA 3 =
     Inr \<lparr>moviesToRerank = [movieA, movieB],
          uncoveredGenres = {''Action'', ''Drama''} \<union> {''Comedy''},
          movieIndex = 2, reRankedMovies = [movieC, movieD]\<rparr> \<and>
   ((3::int) \<le> 0 \<or> scenarioA = [] \<or> (\<exists>x\<in>set scenarioA. Genres x \<noteq> [])) \<and>
   distinct (map Title scenarioA) \<and>
   rerank sort_values_stable scenarioA 3 =
     Inr ([movieC, movieD] @
          take (nat (3 - int (length [movieC, movieD])))
            (unseen_titles (Title ` set [movieC, movieD])
               (sort_values_stable score [movieA, movieB]))) \<and>
   sorted_wrt (\<lambda>a b. score b \<le> score a)
     (unseen_titles (Title ` set [movieC, movieD])
        (sort_values_stable score [movieA, movieB])) \<and>
   unseen_titles (Title ` set [movieC, movieD]) (sort_values_stable score [movieA, movieB])
     = sort_values_stable score [movieA, movieB]"
proof -
  have h1: "sort_contract sort_values_stable" by (rule sort_contract_stable)
  note h2 = run_phase1_scenarioA
  have h3: "(3::int) \<le> 0 \<or> scenarioA = [] \<or> (\<exists>x\<in>set scenarioA. Genres x \<noteq> [])"
    by (simp add: movie_defs)
  have h4: "distinct (map Title scenarioA)"
    by (simp add: movie_defs)
  note t = fill_takes_best_unseen [OF h1 h2 h3]
  have c1: "rerank sort_values_stable scenarioA 3 =
     Inr ([movieC, movieD] @
          take (nat (3 - int (length [movieC, movieD])))
            (unseen_titles (Title ` set [movieC, movieD])
               (sort_values_stable score [movieA, movieB])))"
    using t by simp
  have c2: "sorted_wrt (\<lambda>a b. score b \<le> score a)
     (unseen_titles (Title ` set [movieC, movieD])
        (sort_values_stable score [movieA, movieB]))"
    using t by simp
  have c3: "unseen_titles (Title ` set [movieC, movieD])
              (sort_values_stable score [movieA, movieB])
            = sort_values_stable score [movieA, movieB]"
    using t h4 by simp
  show ?thesis
    by (intro conjI h1 h2 h3 h4 c1 c2 c3)
qed

text \<open>
  Candidates C, Hamlet (score 10) and Hamlet (score 5, another identifier), slate size 3.
  The greedy loop picks C, which covers both genres. The fill loop appends the first
  Hamlet and passes over the second: the slate ends with two rows, one short of the slate
  size, although a row was left whose identifier is not on the slate.
\<close>

theorem fill_takes_best_unseen_counterexample:
  "phase1 sort_values_stable [movieC, hamlet1, hamlet2] 3 =
     Inr \<lparr>moviesToRerank = [hamlet1, hamlet2], uncoveredGenres = {''Action'', ''Drama''},
          movieIndex = 1, reRankedMovies = [movieC]\<rparr> \<and>
   rerank sort_values_stable [movieC, hamlet1, hamlet2] 3 = Inr [movieC, hamlet1] \<and>
   int (length [movieC, hamlet1]) < 3 \<and>
   MovieID hamlet2 \<notin> MovieID ` set [movieC, hamlet1]"
  using run_phase1_C_hamlet12 run_C_hamlet12
  by (simp add: movieC_def hamlet1_def hamlet2_def)




text \<open>
  C8. An empty candidate list is not an error: for every positive slate size, and whatever
  order the sort gives to ties, the cell applied to a frame without rows ends with an empty
  \<^verbatim>\<open>reRankedMovies\<close>.
\<close>

theorem empty_candidates_empty_slate:
  assumes "sort_contract sort_values" and "0 < recListSize"
  shows "rerank sort_values [] recListSize = Inr []"
  using assms(1) by (rule rerank_Nil)

theorem empty_candidates_empty_slate_witness:
  "sort_contract sort_values_stable \<and> (0::int) < 5 \<and>
   rerank sort_values_stable [] 5 = Inr []"
proof -
  have h1: "sort_contract sort_values_stable" by (rule sort_contract_stable)
  have h2: "(0::int) < 5" by simp
  show ?thesis
    using empty_candidates_empty_slate [OF h1 h2] h1 h2 by simp
qed

text \<open>
  C9. Every row picked in the greedy loop has \<^verbatim>\<open>nGenres\<close> at least 1, so the set of
  covered genres grows strictly with each pick: whenever the loop is entered, a genre of
  the candidates is not covered yet, and a row still in \<^verbatim>\<open>moviesToRerank\<close> has it. The
  loop therefore never picks a row that adds nothing, and never meets a frame in which
  every row has \<^verbatim>\<open>nGenres\<close> 0.
\<close>

theorem greedy_pick_gains:
  assumes "sort_contract sort_values"
    and "s \<in> set (phase1_steps sort_values candidates recListSize)"
  shows "\<exists>s' topMovie.
           loop_body sort_values s = Inr s' \<and>
           reRankedMovies s' = reRankedMovies s @ [topMovie] \<and>
           topMovie \<in> set (moviesToRerank s) \<and>
           1 \<le> nGenres (uncoveredGenres s) topMovie \<and>
           uncoveredGenres s \<subset> uncoveredGenres s'"
proof -
  obtain s' topMovie where body: "loop_body sort_values s = Inr s'"
    and slate: "reRankedMovies s' = reRankedMovies s @ [topMovie]"
    and cov: "uncoveredGenres s' = uncoveredGenres s \<union> set (Genres topMovie)"
    and mem: "topMovie \<in> set (moviesToRerank s)"
    and pos: "1 \<le> nGenres (uncoveredGenres s) topMovie"
    using phase1_step [OF assms] by blast
  have "set (Genres topMovie) - uncoveredGenres s \<noteq> {}"
  proof
    assume "set (Genres topMovie) - uncoveredGenres s = {}"
    then have "nGenres (uncoveredGenres s) topMovie = 0"
      by (simp only: nGenres_def card.empty)
    then show False
      using pos by simp
  qed
  then have "uncoveredGenres s \<subset> uncoveredGenres s'"
    using cov by auto
  then show ?thesis
    using body slate mem pos by blast
qed

theorem greedy_pick_gains_witness:
  "sort_contract sort_values_stable \<and>
   \<lparr>moviesToRerank = [movieA, movieB, movieD], uncoveredGenres = {''Action'', ''Drama''},
    movieIndex = 1, reRankedMovies = [movieC]\<rparr>
     \<in> set (phase1_steps sort_values_stable scenarioA 3) \<and>
   (\<exists>s' topMovie.
      loop_body sort_values_stable
        \<lparr>moviesToRerank = [movieA, movieB, movieD], uncoveredGenres = {''Action'', ''Drama''},
         movieIndex = 1, reRankedMovies = [movieC]\<rparr> = Inr s' \<and>
      reRankedMovies s' = [movieC] @ [topMovie] \<and>
      topMovie \<in> set [movieA, movieB, movieD] \<and>
      1 \<le> nGenres {''Action'', ''Drama''} topMovie \<and>
      {''Action'', ''Drama''} \<subset> uncoveredGenres s')"
proof -
  have h1: "sort_contract sort_values_stable" by (rule sort_contract_stable)
  have h2: "\<lparr>moviesToRerank = [movieA, movieB, movieD],
             uncoveredGenres = {''Action'', ''Drama''},
             movieIndex = 1, reRankedMovies = [movieC]\<rparr>
            \<in> set (phase1_steps sort_values_stable scenarioA 3)"
    by (simp add: run_steps_scenarioA)
  show ?thesis
    using greedy_pick_gains [OF h1 h2] h1 h2 by simp
qed

text \<open>
  C10, as the cell has it. The fill loop excludes duplicates by comparing titles, not
  identifiers, and the greedy loop compares nothing: two candidates with one title can
  both be picked by the greedy loop. What holds is that the rows appended by the fill loop
  have pairwise different titles, none of them the title of a row picked by the greedy
  loop (in state \<open>s1\<close> when it stops). So the slate can end shorter than
  \<open>min slateSize (number of candidates)\<close>, as it does on two candidates with different
  identifiers, one title and one genre.
\<close>

theorem fill_compares_titles:
  assumes "sort_contract sort_values"
    and "phase1 sort_values candidates recListSize = Inr s1"
    and "recListSize \<le> 0 \<or> candidates = [] \<or> (\<exists>x\<in>set candidates. Genres x \<noteq> [])"
  shows "(\<exists>suffix.
            rerank sort_values candidates recListSize = Inr (reRankedMovies s1 @ suffix) \<and>
            distinct (map Title suffix) \<and>
            (\<forall>x\<in>set suffix. Title x \<notin> Title ` set (reRankedMovies s1))) \<and>
         distinct (map MovieID [hamlet1, hamlet2]) \<and>
         rerank sort_values_stable [hamlet1, hamlet2] 2 = Inr [hamlet1]"
proof -
  have "\<exists>suffix.
          rerank sort_values candidates recListSize = Inr (reRankedMovies s1 @ suffix) \<and>
          distinct (map Title suffix) \<and>
          (\<forall>x\<in>set suffix. Title x \<notin> Title ` set (reRankedMovies s1))"
    using rerank_total_summary [OF assms] by blast
  moreover have "distinct (map MovieID [hamlet1, hamlet2])"
    by (simp add: hamlet1_def hamlet2_def)
  ultimately show ?thesis
    using run_hamlet12 by simp
qed

theorem fill_compares_titles_witness:
  "sort_contract sort_values_stable \<and>
   phase1 sort_values_stable [hamlet1, hamlet2] 2 =
     Inr \<lparr>moviesToRerank = [hamlet2], uncoveredGenres = {''Drama''},
          movieIndex = 1, reRankedMovies = [hamlet1]\<rparr> \<and>
   ((2::int) \<le> 0 \<or> [hamlet1, hamlet2] = [] \<or>
    (\<exists>x\<in>set [hamlet1, hamlet2]. Genres x \<noteq> [])) \<and>
   (\<exists>suffix.
      rerank sort_values_stable [hamlet1, hamlet2] 2 = Inr ([hamlet1] @ suffix) \<and>
      distinct (map Title suffix) \<and>
      (\<forall>x\<in>set suffix. Title x \<notin> Title ` set [hamlet1]))"
proof -
  have h1: "sort_contract sort_values_stable" by (rule sort_contract_stable)
  note h2 = run_phase1_hamlet12
  have h3: "(2::int) \<le> 0 \<or> [hamlet1, hamlet2] = [] \<or>
            (\<exists>x\<in>set [hamlet1, hamlet2]. Genres x \<noteq> [])"
    by (simp add: hamlet1_def)
  show ?thesis
    using fill_compares_titles [OF h1 h2 h3] h1 h2 h3 by simp
qed

text \<open>
  Two candidates with different identifiers, one title and different genres, slate size 2:
  the greedy loop picks both, and both are on the slate.
\<close>

theorem fill_compares_titles_counterexample:
  "MovieID hamlet1 \<noteq> MovieID hamlet3 \<and> Title hamlet1 = Title hamlet3 \<and>
   rerank sort_values_stable [hamlet1, hamlet3] 2 = Inr [hamlet1, hamlet3]"
  using run_hamlet13 by (simp add: hamlet1_def hamlet3_def)

end
